theory Spec2Isabelle
  imports Main "HOL-Library.Word"
begin

section \<open>Data model\<close>

text \<open>
  A shallow embedding of \<^verbatim>\<open>cctrusted_base/eventlog.py\<close>. Python's \<^verbatim>\<open>bytes\<close> are lists
  of 8-bit words, Python's unbounded integers are \<open>nat\<close> where they are read as unsigned
  fields and \<open>int\<close> where the code subtracts from them or compares them with caller
  arguments. An attribute that may be \<^verbatim>\<open>None\<close> is an \<open>option\<close>.
\<close>

type_synonym byte = "8 word"

text \<open>
  The exceptions the code can leave through. \<open>UnknownAlgorithm\<close> and \<open>InvalidRange\<close> are
  the two \<^verbatim>\<open>ValueError\<close>s raised in \<^verbatim>\<open>_parse_event_log_body\<close> and in \<^verbatim>\<open>select\<close>
  (the latter carries the exception's message); \<open>TypeError\<close> is \<^verbatim>\<open>len(None)\<close>,
  \<open>AttributeError\<close> is \<^verbatim>\<open>None.digest_sizes\<close>; \<open>OutOfBounds\<close> is the failure of the cursor
  reader.
\<close>

datatype error =
    OutOfBounds
  | UnknownAlgorithm nat
  | InvalidRange string
  | TypeError
  | AttributeError

text \<open>The value classes of \<^verbatim>\<open>cctrusted_base.tcg\<close>, with the constructor arguments the
  code passes, in the order it passes them.\<close>

record TcgEfiSpecIdEventAlgorithmSize =
  algo_id :: nat
  digest_size :: nat

record TcgPcClientImrEvent =
  header_imr :: int
  header_event_type :: nat
  header_digest :: "byte list"
  header_event_size :: nat
  header_event :: "byte list"

record TcgEfiSpecIdEvent =
  spec_id_signature :: "byte list"
  spec_id_platform_cls :: nat
  spec_id_version_minor :: nat
  spec_id_version_major :: nat
  spec_id_errata :: nat
  spec_id_uint_size :: nat
  spec_id_num_of_algo :: nat
  digest_sizes :: "TcgEfiSpecIdEventAlgorithmSize list"
  spec_id_vendor_size :: nat
  spec_id_vendor_info :: "byte list"

record TcgDigest =
  alg_id :: nat
  digest_data :: "byte list"

record TcgImrEventLogEntry =
  imr_index :: int
  event_type :: nat
  digests :: "TcgDigest list"
  event_size :: nat
  event :: "byte list"

text \<open>
  The object \<^verbatim>\<open>TcgEventLog\<close>. The field \<open>logged\<close> collects, in order, the messages the
  code hands to \<^verbatim>\<open>LOG.error\<close>.
\<close>

record TcgEventLog =
  data :: "byte list option"
  spec_id_header :: "TcgPcClientImrEvent option"
  spec_id_header_event :: "TcgEfiSpecIdEvent option"
  event_logs :: "TcgImrEventLogEntry list"
  count :: int
  logged :: "string list"

text \<open>\<^verbatim>\<open>__init__\<close>\<close>

definition init :: "byte list option \<Rightarrow> TcgEventLog" where
  "init d = \<lparr>data = d, spec_id_header = None, spec_id_header_event = None,
             event_logs = [], count = 0, logged = []\<rparr>"

section \<open>Cursor reader\<close>

text \<open>
  Modelled from the spec: the class \<^verbatim>\<open>BinaryBlob\<close> of \<^verbatim>\<open>cctrusted_base.binaryblob\<close> is
  not among the sources. Section 4.1 of the specification gives its contract: each read
  at an offset returns the little-endian value and the offset immediately following it,
  and fails with OutOfBounds when the requested width or length would read past the end
  of the buffer.
\<close>

definition get_uint8 :: "byte list \<Rightarrow> nat \<Rightarrow> error + nat \<times> nat" where
  "get_uint8 blob index =
     (if index + 1 \<le> length blob then Inr (unat (blob ! index), index + 1)
      else Inl OutOfBounds)"

definition get_uint16 :: "byte list \<Rightarrow> nat \<Rightarrow> error + nat \<times> nat" where
  "get_uint16 blob index =
     (if index + 2 \<le> length blob
      then Inr (unat (blob ! index) + 256 * unat (blob ! (index + 1)), index + 2)
      else Inl OutOfBounds)"

definition get_uint32 :: "byte list \<Rightarrow> nat \<Rightarrow> error + nat \<times> nat" where
  "get_uint32 blob index =
     (if index + 4 \<le> length blob
      then Inr (unat (blob ! index) + 256 * unat (blob ! (index + 1))
                + 65536 * unat (blob ! (index + 2))
                + 16777216 * unat (blob ! (index + 3)), index + 4)
      else Inl OutOfBounds)"

definition get_bytes :: "byte list \<Rightarrow> nat \<Rightarrow> nat \<Rightarrow> error + byte list \<times> nat" where
  "get_bytes blob index n =
     (if index + n \<le> length blob then Inr (take n (drop index blob), index + n)
      else Inl OutOfBounds)"

text \<open>
  Modelled from the spec: \<^verbatim>\<open>TcgEventType.EV_NO_ACTION\<close> of \<^verbatim>\<open>cctrusted_base.tcg\<close> is not
  among the sources; it is the reserved no-action event type of the TCG PC Client
  Platform Firmware Profile the specification refers to, whose value is 3.
\<close>

definition EV_NO_ACTION :: nat where
  "EV_NO_ACTION = 3"

section \<open>Sequencing of fallible reads\<close>

text \<open>
  A statement \<^verbatim>\<open>x, index = blob.get_...(index)\<close> either raises, and then the rest of the
  function is skipped, or binds its two results for the statements that follow.
\<close>

definition bind :: "error + 'a \<Rightarrow> ('a \<Rightarrow> error + 'b) \<Rightarrow> error + 'b" where
  "bind m f = (case m of Inl e \<Rightarrow> Inl e | Inr x \<Rightarrow> f x)"

section \<open>Header record parser\<close>

text \<open>The loop \<^verbatim>\<open>for _ in range(spec_id_num_of_algo)\<close> of \<^verbatim>\<open>_parse_header\<close>; the last
  argument is the list \<^verbatim>\<open>spec_id_digest_sizes\<close> built so far.\<close>

fun parse_digest_sizes ::
  "byte list \<Rightarrow> nat \<Rightarrow> nat \<Rightarrow> TcgEfiSpecIdEventAlgorithmSize list
     \<Rightarrow> error + TcgEfiSpecIdEventAlgorithmSize list \<times> nat" where
  "parse_digest_sizes blob index 0 acc = Inr (acc, index)"
| "parse_digest_sizes blob index (Suc n) acc =
     bind (get_uint16 blob index) (\<lambda>(a, index1).
     bind (get_uint16 blob index1) (\<lambda>(d, index2).
     parse_digest_sizes blob index2 n (acc @ [\<lparr>algo_id = a, digest_size = d\<rparr>])))"

text \<open>Lines 194 to 207 of \<^verbatim>\<open>_parse_header\<close>: the fixed fields of the record and the
  \<^verbatim>\<open>TcgPcClientImrEvent\<close> built from them. The offset kept is the one before the event
  bytes, since the code discards the offset \<^verbatim>\<open>get_bytes\<close> returns for them.\<close>

definition parse_header_fields :: "byte list \<Rightarrow> error + TcgPcClientImrEvent \<times> nat" where
  "parse_header_fields blob =
     bind (get_uint32 blob 0) (\<lambda>(imr, i1).
     bind (get_uint32 blob i1) (\<lambda>(hdr_event_type, i2).
     bind (get_bytes blob i2 20) (\<lambda>(digest, i3).
     bind (get_uint32 blob i3) (\<lambda>(hdr_event_size, i4).
     bind (get_bytes blob i4 hdr_event_size) (\<lambda>(hdr_event, _).
     Inr (\<lparr>header_imr = int imr - 1, header_event_type = hdr_event_type,
           header_digest = digest, header_event_size = hdr_event_size,
           header_event = hdr_event\<rparr>, i4))))))"

text \<open>Lines 209 to 231 of \<^verbatim>\<open>_parse_header\<close>: the specification-id structure, decoded
  from the offset of the event bytes on.\<close>

definition parse_spec_id_event :: "byte list \<Rightarrow> nat \<Rightarrow> error + TcgEfiSpecIdEvent \<times> nat" where
  "parse_spec_id_event blob i4 =
     bind (get_bytes blob i4 16) (\<lambda>(signature, i5).
     bind (get_uint32 blob i5) (\<lambda>(platform_cls, i6).
     bind (get_uint8 blob i6) (\<lambda>(version_minor, i7).
     bind (get_uint8 blob i7) (\<lambda>(version_major, i8).
     bind (get_uint8 blob i8) (\<lambda>(errata, i9).
     bind (get_uint8 blob i9) (\<lambda>(uint_size, i10).
     bind (get_uint32 blob i10) (\<lambda>(num_of_algo, i11).
     bind (parse_digest_sizes blob i11 num_of_algo []) (\<lambda>(sizes, i12).
     bind (get_uint8 blob i12) (\<lambda>(vendor_size, i13).
     bind (if vendor_size > 0 then get_bytes blob i13 vendor_size else Inr ([], i13))
       (\<lambda>(vendor_info, i14).
     Inr (\<lparr>spec_id_signature = signature, spec_id_platform_cls = platform_cls,
           spec_id_version_minor = version_minor, spec_id_version_major = version_major,
           spec_id_errata = errata, spec_id_uint_size = uint_size,
           spec_id_num_of_algo = num_of_algo, digest_sizes = sizes,
           spec_id_vendor_size = vendor_size, spec_id_vendor_info = vendor_info\<rparr>,
          i14)))))))))))"

text \<open>
  \<^verbatim>\<open>_parse_header\<close>. It assigns \<^verbatim>\<open>self._spec_id_header\<close> before it decodes the
  specification-id structure, so a failure in the second half leaves the first
  assignment in place: the function returns the object together with the outcome.
\<close>

definition parse_header :: "byte list \<Rightarrow> TcgEventLog \<Rightarrow> TcgEventLog \<times> (error + nat)" where
  "parse_header blob s =
     (case parse_header_fields blob of
        Inl e \<Rightarrow> (s, Inl e)
      | Inr (hdr, i4) \<Rightarrow>
          (case parse_spec_id_event blob i4 of
             Inl e \<Rightarrow> (s\<lparr>spec_id_header := Some hdr\<rparr>, Inl e)
           | Inr (ev, index) \<Rightarrow>
               (s\<lparr>spec_id_header := Some hdr, spec_id_header_event := Some ev\<rparr>,
                Inr index)))"

section \<open>Body record parser\<close>

text \<open>The loop \<^verbatim>\<open>for _ in range(digest_count)\<close> of \<^verbatim>\<open>_parse_event_log_body\<close>; the
  first argument is \<^verbatim>\<open>self._spec_id_header_event\<close>, the last one the list \<^verbatim>\<open>digests\<close>
  built so far. \<open>find\<close> is \<^verbatim>\<open>next((alg for alg in ... if ...), None)\<close>.\<close>

fun parse_digests ::
  "TcgEfiSpecIdEvent option \<Rightarrow> byte list \<Rightarrow> nat \<Rightarrow> nat \<Rightarrow> TcgDigest list
     \<Rightarrow> error + TcgDigest list \<times> nat" where
  "parse_digests reg blob index 0 acc = Inr (acc, index)"
| "parse_digests reg blob index (Suc n) acc =
     bind (get_uint16 blob index) (\<lambda>(a, index1).
     bind (case reg of None \<Rightarrow> Inl AttributeError | Some spec \<Rightarrow> Inr (digest_sizes spec))
       (\<lambda>sizes.
     bind (case find (\<lambda>alg. algo_id alg = a) sizes of
             None \<Rightarrow> Inl (UnknownAlgorithm a) | Some alg \<Rightarrow> Inr alg) (\<lambda>alg.
     bind (get_bytes blob index1 (digest_size alg)) (\<lambda>(dd, index2).
     parse_digests reg blob index2 n (acc @ [\<lparr>alg_id = a, digest_data = dd\<rparr>])))))"

text \<open>\<^verbatim>\<open>_parse_event_log_body\<close>; it reads the object's registry and changes nothing.\<close>

definition parse_event_log_body ::
  "TcgEfiSpecIdEvent option \<Rightarrow> byte list \<Rightarrow> error + TcgImrEventLogEntry \<times> nat" where
  "parse_event_log_body reg blob =
     bind (get_uint32 blob 0) (\<lambda>(imr, i1).
     bind (get_uint32 blob i1) (\<lambda>(ev_type, i2).
     bind (get_uint32 blob i2) (\<lambda>(digest_count, i3).
     bind (parse_digests reg blob i3 digest_count []) (\<lambda>(ds, i4).
     bind (get_uint32 blob i4) (\<lambda>(ev_size, i5).
     bind (get_bytes blob i5 ev_size) (\<lambda>(ev, i6).
     Inr (\<lparr>imr_index = int imr - 1, event_type = ev_type, digests = ds,
           event_size = ev_size, event = ev\<rparr>, i6)))))))"

section \<open>Offsets returned by the parsers\<close>

lemma bind_Inr [simp]: "bind (Inr x) f = f x"
  by (simp add: bind_def)

lemma bind_Inl [simp]: "bind (Inl e) f = Inl e"
  by (simp add: bind_def)

lemma bind_eq_Inr: "bind m f = Inr y \<longleftrightarrow> (\<exists>x. m = Inr x \<and> f x = Inr y)"
  by (cases m) simp_all

lemma bind_eq_Inl: "bind m f = Inl e \<longleftrightarrow> m = Inl e \<or> (\<exists>x. m = Inr x \<and> f x = Inl e)"
  by (cases m) simp_all

lemma get_uint8_Inr: "get_uint8 blob i = Inr (v, j) \<Longrightarrow> j = i + 1 \<and> j \<le> length blob"
  by (auto simp: get_uint8_def split: if_splits)

lemma get_uint16_Inr: "get_uint16 blob i = Inr (v, j) \<Longrightarrow> j = i + 2 \<and> j \<le> length blob"
  by (auto simp: get_uint16_def split: if_splits)

lemma get_uint32_Inr: "get_uint32 blob i = Inr (v, j) \<Longrightarrow> j = i + 4 \<and> j \<le> length blob"
  by (auto simp: get_uint32_def split: if_splits)

lemma get_bytes_Inr:
  "get_bytes blob i n = Inr (bs, j) \<Longrightarrow> j = i + n \<and> j \<le> length blob \<and> length bs = n"
  by (auto simp: get_bytes_def split: if_splits)

lemma parse_digest_sizes_Inr:
  "parse_digest_sizes blob i n acc = Inr (xs, j) \<Longrightarrow>
     j = i + 4 * n \<and> length xs = length acc + n"
proof (induction n arbitrary: i acc)
  case 0
  then show ?case by simp
next
  case (Suc n)
  from Suc.prems obtain a i1 d i2 where
    a: "get_uint16 blob i = Inr (a, i1)" and d: "get_uint16 blob i1 = Inr (d, i2)"
    and r: "parse_digest_sizes blob i2 n (acc @ [\<lparr>algo_id = a, digest_size = d\<rparr>]) = Inr (xs, j)"
    by (auto simp: bind_eq_Inr)
  from get_uint16_Inr[OF a] get_uint16_Inr[OF d] Suc.IH[OF r] show ?case by auto
qed

lemma parse_header_fields_Inr:
  "parse_header_fields blob = Inr (h, j) \<Longrightarrow>
     j = 32 \<and> 32 + header_event_size h \<le> length blob"
  unfolding parse_header_fields_def
  by (auto simp: bind_eq_Inr dest!: get_uint32_Inr get_bytes_Inr)

lemma parse_spec_id_event_Inr:
  "parse_spec_id_event blob i = Inr (ev, j) \<Longrightarrow>
     j = i + 29 + 4 * spec_id_num_of_algo ev + spec_id_vendor_size ev
     \<and> length (digest_sizes ev) = spec_id_num_of_algo ev
     \<and> length (spec_id_vendor_info ev) = spec_id_vendor_size ev
     \<and> j \<le> length blob"
  unfolding parse_spec_id_event_def
  by (auto simp: bind_eq_Inr split: if_splits
      dest!: get_uint32_Inr get_bytes_Inr get_uint8_Inr parse_digest_sizes_Inr)

lemma parse_header_Inr:
  "parse_header blob s = (t, Inr j) \<Longrightarrow> 61 \<le> j"
  unfolding parse_header_def
  by (auto split: sum.splits prod.splits
      dest!: parse_header_fields_Inr parse_spec_id_event_Inr)

lemma parse_digests_Inr:
  "parse_digests reg blob i n acc = Inr (ds, j) \<Longrightarrow> i \<le> j"
proof (induction n arbitrary: i acc)
  case 0
  then show ?case by simp
next
  case (Suc n)
  from Suc.prems show ?case
    apply (simp add: bind_eq_Inr)
    apply (elim exE conjE)
    apply (drule get_uint16_Inr get_bytes_Inr Suc.IH)+
    apply simp
    done
qed

lemma parse_event_log_body_Inr:
  "parse_event_log_body reg blob = Inr (entry, j) \<Longrightarrow> 16 \<le> j"
  unfolding parse_event_log_body_def
  by (auto simp: bind_eq_Inr dest!: get_uint32_Inr get_bytes_Inr parse_digests_Inr)

section \<open>Log driver\<close>

text \<open>
  The \<^verbatim>\<open>while\<close> loop of \<^verbatim>\<open>_parse\<close> over the buffer \<open>buf\<close>, from the offset \<open>index\<close> and
  the object \<open>s\<close>. It returns the object as the loop leaves it and the exception that
  escaped, if any. \<^verbatim>\<open>self._data[start:]\<close> is \<open>drop index buf\<close>.
\<close>

function parse_loop :: "byte list \<Rightarrow> nat \<Rightarrow> TcgEventLog \<Rightarrow> TcgEventLog \<times> error option" where
  "parse_loop buf index s =
     (if index < length buf then
        (case get_uint32 buf index of
           Inl e \<Rightarrow> (s, Some e)
         | Inr (imr, index1) \<Rightarrow>
             (case get_uint32 buf index1 of
                Inl e \<Rightarrow> (s, Some e)
              | Inr (ev_type, index2) \<Rightarrow>
                  if imr = 0xFFFFFFFF then (s, None)
                  else if ev_type = EV_NO_ACTION then
                    (case parse_header (drop index buf) s of
                       (s1, Inl e) \<Rightarrow> (s1, Some e)
                     | (s1, Inr header_len) \<Rightarrow>
                         parse_loop buf (index + header_len) (s1\<lparr>count := count s1 + 1\<rparr>))
                  else
                    (case parse_event_log_body (spec_id_header_event s) (drop index buf) of
                       Inl e \<Rightarrow> (s, Some e)
                     | Inr (event_log, e_len) \<Rightarrow>
                         parse_loop buf (index + e_len)
                           (s\<lparr>event_logs := event_logs s @ [event_log],
                              count := count s + 1\<rparr>))))
      else (s, None))"
  by pat_completeness auto
termination
proof (relation "measure (\<lambda>(buf, index, s). length buf - index)")
  show "wf (measure (\<lambda>(buf, index, s). length buf - index))"
    by simp
next
  fix buf :: "byte list" and index header_len :: nat and s s1 :: TcgEventLog
    and x y :: "error + nat"
  assume "index < length buf" and "(s1, y) = parse_header (drop index buf) s"
    and "y = Inr header_len"
  then have "61 \<le> header_len"
    using parse_header_Inr [of "drop index buf" s s1 header_len] by simp
  with \<open>index < length buf\<close>
  show "((buf, index + header_len, s1\<lparr>count := count s1 + 1\<rparr>), buf, index, s)
          \<in> measure (\<lambda>(buf, index, s). length buf - index)"
    by simp
next
  fix buf :: "byte list" and index e_len :: nat and s :: TcgEventLog
    and event_log :: TcgImrEventLogEntry and xa :: "TcgImrEventLogEntry \<times> nat"
  assume "index < length buf"
    and "parse_event_log_body (spec_id_header_event s) (drop index buf) = Inr xa"
    and "(event_log, e_len) = xa"
  then have "16 \<le> e_len"
    using parse_event_log_body_Inr [of "spec_id_header_event s" "drop index buf" event_log e_len]
    by simp
  with \<open>index < length buf\<close>
  show "((buf, index + e_len,
          s\<lparr>event_logs := event_logs s @ [event_log], count := count s + 1\<rparr>), buf, index, s)
          \<in> measure (\<lambda>(buf, index, s). length buf - index)"
    by simp
qed

declare parse_loop.simps [simp del]

text \<open>
  \<^verbatim>\<open>_parse\<close>. For \<^verbatim>\<open>self._data is None\<close> the code logs an error and goes on: the loop
  condition \<^verbatim>\<open>len(self._data)\<close> then raises \<^verbatim>\<open>TypeError\<close>.
\<close>

definition parse :: "TcgEventLog \<Rightarrow> TcgEventLog \<times> error option" where
  "parse s =
     (case data s of
        None \<Rightarrow> (s\<lparr>logged := logged s @ [''Providing invalid data blob.'']\<rparr>, Some TypeError)
      | Some buf \<Rightarrow> parse_loop buf 0 s)"

section \<open>Selector\<close>

text \<open>
  \<^verbatim>\<open>select\<close>. \<^verbatim>\<open>self._event_logs[start-1:]\<close> with \<open>0 < start\<close> drops \<open>start - 1\<close>
  records, \<^verbatim>\<open>self._event_logs[:count]\<close> with \<open>0 < count\<close> keeps the first \<open>count\<close>.
\<close>

definition select :: "int option \<Rightarrow> int option \<Rightarrow> TcgEventLog \<Rightarrow> TcgEventLog \<times> error option" where
  "select start cnt s =
     (case parse s of
        (s1, Some e) \<Rightarrow> (s1, Some e)
      | (s1, None) \<Rightarrow>
          (case (case start of
                   None \<Rightarrow> (s1, None)
                 | Some st \<Rightarrow>
                     if \<not> (0 < st \<and> st \<le> count s1)
                     then (s1\<lparr>logged := logged s1 @
                             [''Invalid input start. Start must be number larger than 0 '' @
                              replicate 22 CHR '' '' @
                              ''and smaller than total event log count.'']\<rparr>,
                           Some (InvalidRange ''Invalid parameter start.''))
                     else (s1\<lparr>event_logs := drop (nat (st - 1)) (event_logs s1)\<rparr>, None)) of
             (s2, Some e) \<Rightarrow> (s2, Some e)
           | (s2, None) \<Rightarrow>
               (case cnt of
                  None \<Rightarrow> (s2, None)
                | Some c \<Rightarrow>
                    if \<not> (0 < c \<and> c \<le> int (length (event_logs s2)))
                    then (s2\<lparr>logged := logged s2 @
                            [''Invalid input count. count must be number larger than 0 '' @
                             replicate 22 CHR '' '' @
                             ''and smaller than total event log count.'']\<rparr>,
                          Some (InvalidRange ''Invalid parameter count.''))
                    else (s2\<lparr>event_logs := take (nat c) (event_logs s2)\<rparr>, None))))"

section \<open>Objects that differ in what the loop does not read\<close>

text \<open>
  The loop reads the buffer it is given and the registry of the object; it appends to
  the records and adds to the count, and touches neither \<open>data\<close> nor the log.
  \<open>with_prior d L c lg t\<close> is the object \<open>t\<close> with the records \<open>L\<close> put before its own,
  \<open>c\<close> added to its count, and \<open>d\<close> and \<open>lg\<close> as buffer attribute and log.
\<close>

definition with_prior ::
  "byte list option \<Rightarrow> TcgImrEventLogEntry list \<Rightarrow> int \<Rightarrow> string list \<Rightarrow> TcgEventLog
     \<Rightarrow> TcgEventLog" where
  "with_prior d L c lg t =
     t\<lparr>data := d, event_logs := L @ event_logs t, count := c + count t, logged := lg\<rparr>"

section \<open>Example logs\<close>

text \<open>Concrete registries and buffers on which the theorems below are instantiated.\<close>

definition sha_registry :: "nat \<Rightarrow> TcgEfiSpecIdEvent" where
  "sha_registry d =
     \<lparr>spec_id_signature = [83, 112, 101, 99, 32, 73, 68, 32, 69, 118, 101, 110, 116, 48, 51, 0],
      spec_id_platform_cls = 0, spec_id_version_minor = 0, spec_id_version_major = 2,
      spec_id_errata = 0, spec_id_uint_size = 8, spec_id_num_of_algo = 1,
      digest_sizes = [\<lparr>algo_id = 4, digest_size = d\<rparr>],
      spec_id_vendor_size = 0, spec_id_vendor_info = []\<rparr>"

text \<open>A header record (65 bytes) declaring algorithm 4 with digest size 1, then a
  measurement record with two digests: the first tagged 4, the second tagged 0x9999.\<close>

definition unknown_algorithm_log :: "byte list" where
  "unknown_algorithm_log =
     [1, 0, 0, 0,
      3, 0, 0, 0,
      0, 0, 0, 0, 0, 0, 0, 0, 0, 0, 0, 0, 0, 0, 0, 0, 0, 0, 0, 0,
      33, 0, 0, 0,
      83, 112, 101, 99, 32, 73, 68, 32, 69, 118, 101, 110, 116, 48, 51, 0,
      0, 0, 0, 0,
      0, 2, 0, 8,
      1, 0, 0, 0,
      4, 0, 1, 0,
      0,
      2, 0, 0, 0,
      1, 0, 0, 0,
      2, 0, 0, 0,
      4, 0,
      170,
      153, 153,
      1, 2, 3,
      1, 0, 0, 0,
      9]"

text \<open>A header record declaring algorithm 4 with digest size 1, a measurement record
  with one 1-byte digest tagged 4, a second header record (at offset 84) declaring
  algorithm 4 with digest size 2, and a measurement record with one 2-byte digest tagged 4.\<close>

definition two_header_log :: "byte list" where
  "two_header_log =
     [1, 0, 0, 0,
      3, 0, 0, 0,
      0, 0, 0, 0, 0, 0, 0, 0, 0, 0, 0, 0, 0, 0, 0, 0, 0, 0, 0, 0,
      33, 0, 0, 0,
      83, 112, 101, 99, 32, 73, 68, 32, 69, 118, 101, 110, 116, 48, 51, 0,
      0, 0, 0, 0,
      0, 2, 0, 8,
      1, 0, 0, 0,
      4, 0, 1, 0,
      0,
      1, 0, 0, 0,
      1, 0, 0, 0,
      1, 0, 0, 0,
      4, 0,
      170,
      0, 0, 0, 0,
      1, 0, 0, 0,
      3, 0, 0, 0,
      0, 0, 0, 0, 0, 0, 0, 0, 0, 0, 0, 0, 0, 0, 0, 0, 0, 0, 0, 0,
      33, 0, 0, 0,
      83, 112, 101, 99, 32, 73, 68, 32, 69, 118, 101, 110, 116, 48, 51, 0,
      0, 0, 0, 0,
      0, 2, 0, 8,
      1, 0, 0, 0,
      4, 0, 2, 0,
      0,
      1, 0, 0, 0,
      1, 0, 0, 0,
      1, 0, 0, 0,
      4, 0,
      187, 204,
      0, 0, 0, 0]"

text \<open>A header record whose event size is 40: a specification-id structure without
  algorithms or vendor information (29 bytes) and 11 further bytes.\<close>

definition padded_header_log :: "byte list" where
  "padded_header_log =
     [1, 0, 0, 0,
      3, 0, 0, 0,
      0, 0, 0, 0, 0, 0, 0, 0, 0, 0, 0, 0, 0, 0, 0, 0, 0, 0, 0, 0,
      40, 0, 0, 0,
      83, 112, 101, 99, 32, 73, 68, 32, 69, 118, 101, 110, 116, 48, 51, 0,
      0, 0, 0, 0,
      0, 2, 0, 8,
      0, 0, 0, 0,
      0,
      0, 0, 0, 0, 0, 0, 0, 0, 0, 0, 0]"

text \<open>A header record whose event size is 40 and whose structure fills it: two
  algorithms and 3 bytes of vendor information.\<close>

definition exact_header_log :: "byte list" where
  "exact_header_log =
     [1, 0, 0, 0,
      3, 0, 0, 0,
      0, 0, 0, 0, 0, 0, 0, 0, 0, 0, 0, 0, 0, 0, 0, 0, 0, 0, 0, 0,
      40, 0, 0, 0,
      83, 112, 101, 99, 32, 73, 68, 32, 69, 118, 101, 110, 116, 48, 51, 0,
      0, 0, 0, 0,
      0, 2, 0, 8,
      2, 0, 0, 0,
      4, 0, 32, 0,
      11, 0, 20, 0,
      3, 7, 7, 7]"

text \<open>The end-to-end buffer: a header record declaring algorithm 4 with digest size
  32 and no vendor information, a measurement record with raw register field 1, one
  digest tagged 4 with the bytes 1 to 32, event size 4 and 4 payload bytes, and the
  sentinel.\<close>

definition end_to_end_log :: "byte list" where
  "end_to_end_log =
     [1, 0, 0, 0,
      3, 0, 0, 0,
      0, 0, 0, 0, 0, 0, 0, 0, 0, 0, 0, 0, 0, 0, 0, 0, 0, 0, 0, 0,
      33, 0, 0, 0,
      83, 112, 101, 99, 32, 73, 68, 32, 69, 118, 101, 110, 116, 48, 51, 0,
      0, 0, 0, 0,
      0, 2, 0, 8,
      1, 0, 0, 0,
      4, 0, 32, 0,
      0,
      1, 0, 0, 0,
      1, 0, 0, 0,
      1, 0, 0, 0,
      4, 0,
      1, 2, 3, 4, 5, 6, 7, 8, 9, 10, 11, 12, 13, 14, 15, 16, 17, 18, 19, 20, 21, 22, 23, 24, 25, 26, 27, 28, 29, 30, 31, 32,
      4, 0, 0, 0,
      222, 173, 190, 239,
      255, 255, 255, 255]"

text \<open>Two measurement records without digests and without payload, with raw register
  fields 1 and 2; no header record.\<close>

definition two_record_log :: "byte list" where
  "two_record_log = [1, 0, 0, 0, 1, 0, 0, 0, 0, 0, 0, 0, 0, 0, 0, 0,
                     2, 0, 0, 0, 1, 0, 0, 0, 0, 0, 0, 0, 0, 0, 0, 0]"

section \<open>Reading a record prefix\<close>

lemma get_uint32_in_bounds:
  "i + 4 \<le> length buf \<Longrightarrow> \<exists>v. get_uint32 buf i = Inr (v, i + 4)"
  by (simp add: get_uint32_def)

lemma get_uint32_out_of_bounds:
  "length buf < i + 4 \<Longrightarrow> get_uint32 buf i = Inl OutOfBounds"
  by (simp add: get_uint32_def)

lemma parse_loop_sentinel:
  assumes "get_uint32 buf i = Inr (4294967295, j)" and "i + 8 \<le> length buf"
  shows "parse_loop buf i s = (s, None)"
proof -
  from get_uint32_Inr [OF assms(1)] have j: "j = i + 4" by simp
  from assms(2) obtain v where v: "get_uint32 buf (i + 4) = Inr (v, i + 4 + 4)"
    using get_uint32_in_bounds [of "i + 4" buf] by auto
  from assms(2) have "i < length buf" by simp
  then show ?thesis
    using assms(1) v j by (subst parse_loop.simps) simp
qed

lemma parse_loop_truncated_prefix:
  assumes "get_uint32 buf i = Inr (imr, j)" and "length buf < i + 8"
  shows "parse_loop buf i s = (s, Some OutOfBounds)"
proof -
  from get_uint32_Inr [OF assms(1)] have j: "j = i + 4" "i + 4 \<le> length buf" by simp_all
  from assms(2) have "get_uint32 buf (i + 4) = Inl OutOfBounds"
    by (simp add: get_uint32_out_of_bounds)
  moreover from j have "i < length buf" by simp
  ultimately show ?thesis
    using assms(1) j by (subst parse_loop.simps) simp
qed

text \<open>Unfolding the parsers on a concrete buffer.\<close>

lemmas eval_defs = parse_def parse_loop.simps parse_header_def parse_header_fields_def
  parse_spec_id_event_def parse_event_log_body_def get_uint32_def get_uint8_def
  get_uint16_def get_bytes_def EV_NO_ACTION_def init_def

section \<open>The end-of-log sentinel\<close>

text \<open>
  Claim C5. The claim asks that a register-index field of 0xFFFFFFFF at the current
  record offset stops the loop without error in every buffer. The code does test for the
  sentinel and breaks, but only after it has also read the event type: on a buffer that
  ends with the 4 bytes of the sentinel that read fails, and OutOfBounds escapes instead
  of a clean stop. The first buffer below is the sentinel alone; the second is two
  measurement records followed by the sentinel, where both records and the count of 2
  are in the object when the exception leaves.
\<close>

theorem sentinel_at_end_of_buffer_raises:
  "get_uint32 [255, 255, 255, 255] 0 = Inr (4294967295, 4)
   \<and> parse (init (Some [255, 255, 255, 255]))
       = (init (Some [255, 255, 255, 255]), Some OutOfBounds)
   \<and> get_uint32 (two_record_log @ [255, 255, 255, 255]) 32 = Inr (4294967295, 36)
   \<and> parse (init (Some (two_record_log @ [255, 255, 255, 255])))
       = (init (Some (two_record_log @ [255, 255, 255, 255]))
            \<lparr>event_logs :=
               [\<lparr>imr_index = 0, event_type = 1, digests = [], event_size = 0, event = []\<rparr>,
                \<lparr>imr_index = 1, event_type = 1, digests = [], event_size = 0, event = []\<rparr>],
             count := 2\<rparr>, Some OutOfBounds)"
  by (simp add: eval_defs two_record_log_def)

text \<open>
  Claim C10. The sentinel test comes after the reads of the register index and of the
  event type: where the register-index field is the sentinel and fewer than 8 bytes
  remain at its offset, the read of the event type fails with OutOfBounds and the loop
  ends with that error; so a loop that ends cleanly on a sentinel had at least 4 bytes
  after it.
\<close>

theorem sentinel_check_after_event_type_read:
  assumes "get_uint32 buf i = Inr (4294967295, j)"
  shows "(length buf < i + 8 \<longrightarrow> parse_loop buf i s = (s, Some OutOfBounds))
         \<and> (snd (parse_loop buf i s) = None \<longrightarrow> i + 8 \<le> length buf)"
proof -
  have "parse_loop buf i s = (s, Some OutOfBounds)" if "length buf < i + 8"
    using assms that by (rule parse_loop_truncated_prefix)
  then show ?thesis by (cases "length buf < i + 8") auto
qed

theorem sentinel_check_after_event_type_read_witness:
  "parse_loop [255, 255, 255, 255, 3, 0, 0] 0 (init (Some [255, 255, 255, 255, 3, 0, 0]))
     = (init (Some [255, 255, 255, 255, 3, 0, 0]), Some OutOfBounds)"
  using sentinel_check_after_event_type_read
    [of "[255, 255, 255, 255, 3, 0, 0]" 0 4 "init (Some [255, 255, 255, 255, 3, 0, 0])"]
  by (simp add: get_uint32_def)

section \<open>Steps of the parse loop\<close>

lemma parse_loop_header_step:
  assumes "get_uint32 buf i = Inr (imr, i1)" and "imr \<noteq> 4294967295"
    and "get_uint32 buf i1 = Inr (EV_NO_ACTION, i2)"
  shows "parse_loop buf i s =
           (case parse_header (drop i buf) s of
              (s1, Inl e) \<Rightarrow> (s1, Some e)
            | (s1, Inr header_len) \<Rightarrow>
                parse_loop buf (i + header_len) (s1\<lparr>count := count s1 + 1\<rparr>))"
proof -
  from get_uint32_Inr [OF assms(1)] have "i < length buf" by simp
  then show ?thesis
    using assms by (subst parse_loop.simps) simp
qed

lemma parse_loop_body_step:
  assumes "get_uint32 buf i = Inr (imr, i1)" and "imr \<noteq> 4294967295"
    and "get_uint32 buf i1 = Inr (ev_type, i2)" and "ev_type \<noteq> EV_NO_ACTION"
  shows "parse_loop buf i s =
           (case parse_event_log_body (spec_id_header_event s) (drop i buf) of
              Inl e \<Rightarrow> (s, Some e)
            | Inr (event_log, e_len) \<Rightarrow>
                parse_loop buf (i + e_len)
                  (s\<lparr>event_logs := event_logs s @ [event_log], count := count s + 1\<rparr>))"
proof -
  from get_uint32_Inr [OF assms(1)] have "i < length buf" by simp
  then show ?thesis
    using assms by (subst parse_loop.simps) simp
qed

lemma bind_assoc: "bind (bind m f) g = bind m (\<lambda>x. bind (f x) g)"
  by (cases m) simp_all

lemma find_first_match:
  "j < length xs \<Longrightarrow> P (xs ! j) \<Longrightarrow> \<forall>k<j. \<not> P (xs ! k) \<Longrightarrow> find P xs = Some (xs ! j)"
proof (induction xs arbitrary: j)
  case Nil
  then show ?case by simp
next
  case (Cons x xs)
  show ?case
  proof (cases j)
    case 0
    with Cons.prems show ?thesis by simp
  next
    case (Suc j')
    with Cons.prems have "\<not> P x" by auto
    moreover from Suc Cons.prems have "find P xs = Some (xs ! j')"
      by (intro Cons.IH) auto
    ultimately show ?thesis using Suc by simp
  qed
qed

lemma parse_digests_add:
  "parse_digests reg blob i (k + m) acc =
     bind (parse_digests reg blob i k acc) (\<lambda>(ds, p). parse_digests reg blob p m ds)"
proof (induction k arbitrary: i acc)
  case 0
  show ?case by simp
next
  case (Suc k)
  show ?case
    by (simp add: bind_assoc Suc.IH case_prod_unfold)
qed

lemma get_uint32_drop:
  "get_uint32 (drop i buf) k = Inr (v, j) \<longleftrightarrow> get_uint32 buf (i + k) = Inr (v, i + j)"
  by (auto simp: get_uint32_def add.assoc split: if_splits)

lemma parse_digests_unknown:
  assumes "parse_digests (Some spec) blob i k [] = Inr (ds, p)" and "k < n"
    and "get_uint16 blob p = Inr (a, p')"
    and "a \<notin> algo_id ` set (digest_sizes spec)"
  shows "parse_digests (Some spec) blob i n [] = Inl (UnknownAlgorithm a)"
proof -
  from assms(2) obtain m where n: "n = k + Suc m"
    using less_imp_Suc_add [of k n] by auto
  from assms(4) have "find (\<lambda>alg. algo_id alg = a) (digest_sizes spec) = None"
    by (auto simp: find_None_iff)
  with assms(3) have "parse_digests (Some spec) blob p (Suc m) ds = Inl (UnknownAlgorithm a)"
    by simp
  with assms(1) show ?thesis
    unfolding n parse_digests_add by simp
qed

lemma parse_digests_numeral [simp]:
  "parse_digests reg blob i (numeral v) acc = parse_digests reg blob i (Suc (pred_numeral v)) acc"
  by (simp add: numeral_eq_Suc)

lemma parse_digest_sizes_numeral [simp]:
  "parse_digest_sizes blob i (numeral v) acc = parse_digest_sizes blob i (Suc (pred_numeral v)) acc"
  by (simp add: numeral_eq_Suc)

lemma parse_header_Inr_iff:
  "parse_header blob s = (s1, Inr n) \<longleftrightarrow>
     (\<exists>h i4 ev. parse_header_fields blob = Inr (h, i4) \<and> parse_spec_id_event blob i4 = Inr (ev, n)
        \<and> s1 = s\<lparr>spec_id_header := Some h, spec_id_header_event := Some ev\<rparr>)"
  by (auto simp: parse_header_def split: sum.splits)

section \<open>Registry lookups\<close>

text \<open>
  Claim C7. Where the registry has several entries with the algorithm id read from the
  record, the digest is decoded with the digest size of the first of them in declaration
  order: if entry \<open>j\<close> carries the id and no earlier entry does, one turn of the digest
  loop reads exactly \<open>digest_size\<close> of entry \<open>j\<close> bytes, whatever the later entries say.
\<close>

theorem first_matching_registry_entry_gives_digest_size:
  assumes "j < length (digest_sizes spec)"
    and "algo_id (digest_sizes spec ! j) = a"
    and "\<forall>k<j. algo_id (digest_sizes spec ! k) \<noteq> a"
    and "get_uint16 blob i = Inr (a, i1)"
  shows "parse_digests (Some spec) blob i (Suc n) acc =
           bind (get_bytes blob i1 (digest_size (digest_sizes spec ! j))) (\<lambda>(dd, i2).
             parse_digests (Some spec) blob i2 n (acc @ [\<lparr>alg_id = a, digest_data = dd\<rparr>]))"
proof -
  have "find (\<lambda>alg. algo_id alg = a) (digest_sizes spec) = Some (digest_sizes spec ! j)"
    using assms(1-3) by (intro find_first_match) auto
  with assms(4) show ?thesis by simp
qed

theorem first_matching_registry_entry_gives_digest_size_witness:
  "parse_digests
     (Some \<lparr>spec_id_signature = [], spec_id_platform_cls = 0, spec_id_version_minor = 0,
            spec_id_version_major = 2, spec_id_errata = 0, spec_id_uint_size = 2,
            spec_id_num_of_algo = 3,
            digest_sizes = [\<lparr>algo_id = 11, digest_size = 1\<rparr>, \<lparr>algo_id = 4, digest_size = 2\<rparr>,
                            \<lparr>algo_id = 4, digest_size = 3\<rparr>],
            spec_id_vendor_size = 0, spec_id_vendor_info = []\<rparr>)
     [4, 0, 170, 187, 204, 221] 0 (Suc 0) []
   = Inr ([\<lparr>alg_id = 4, digest_data = [170, 187]\<rparr>], 4)"
  using first_matching_registry_entry_gives_digest_size
    [of 1 "\<lparr>spec_id_signature = [], spec_id_platform_cls = 0, spec_id_version_minor = 0,
            spec_id_version_major = 2, spec_id_errata = 0, spec_id_uint_size = 2,
            spec_id_num_of_algo = 3,
            digest_sizes = [\<lparr>algo_id = 11, digest_size = 1\<rparr>, \<lparr>algo_id = 4, digest_size = 2\<rparr>,
                            \<lparr>algo_id = 4, digest_size = 3\<rparr>],
            spec_id_vendor_size = 0, spec_id_vendor_info = []\<rparr>" 4
        "[4, 0, 170, 187, 204, 221]" 0 2 0 "[]"]
  by (simp add: get_uint16_def get_bytes_def)

text \<open>
  Claim C3. In a loop state whose registry is \<open>spec\<close>, a measurement record at offset \<open>i\<close>
  whose first \<open>k\<close> digests decode and whose next digest, still within the declared
  digest count, carries an algorithm id that no registry entry has, makes the loop end
  with UnknownAlgorithm; the object is returned as the loop had it on reaching that
  record, so neither this record nor any later one is added.
\<close>

theorem unknown_algorithm_aborts_parse:
  assumes "spec_id_header_event s = Some spec"
    and "get_uint32 buf i = Inr (imr, i1)" and "imr \<noteq> 4294967295"
    and "get_uint32 buf i1 = Inr (ev_type, i2)" and "ev_type \<noteq> EV_NO_ACTION"
    and "get_uint32 buf i2 = Inr (digest_count, i3)"
    and "parse_digests (Some spec) (drop i buf) 12 k [] = Inr (ds, p)" and "k < digest_count"
    and "get_uint16 (drop i buf) p = Inr (a, p')"
    and "a \<notin> algo_id ` set (digest_sizes spec)"
  shows "parse_loop buf i s = (s, Some (UnknownAlgorithm a))"
proof -
  from get_uint32_Inr [OF assms(2)] get_uint32_Inr [OF assms(4)] get_uint32_Inr [OF assms(6)]
  have idx: "i1 = i + 4" "i2 = i + 8" "i3 = i + 12" by simp_all
  have r0: "get_uint32 (drop i buf) 0 = Inr (imr, 4)"
    using assms(2) idx by (simp add: get_uint32_drop)
  have r1: "get_uint32 (drop i buf) 4 = Inr (ev_type, 8)"
    using assms(4) idx by (simp add: get_uint32_drop)
  have r2: "get_uint32 (drop i buf) 8 = Inr (digest_count, 12)"
    using assms(6) idx by (simp add: get_uint32_drop)
  have "parse_digests (Some spec) (drop i buf) 12 digest_count [] = Inl (UnknownAlgorithm a)"
    using assms(7-10) by (rule parse_digests_unknown)
  with r0 r1 r2 have "parse_event_log_body (Some spec) (drop i buf) = Inl (UnknownAlgorithm a)"
    by (simp add: parse_event_log_body_def)
  with assms(1) show ?thesis
    by (simp add: parse_loop_body_step [OF assms(2-5)])
qed


theorem unknown_algorithm_aborts_parse_witness:
  "parse_loop unknown_algorithm_log 65
     (init (Some unknown_algorithm_log)\<lparr>spec_id_header_event := Some (sha_registry 1), count := 1\<rparr>)
     = (init (Some unknown_algorithm_log)\<lparr>spec_id_header_event := Some (sha_registry 1), count := 1\<rparr>,
        Some (UnknownAlgorithm 39321))
   \<and> snd (parse (init (Some unknown_algorithm_log))) = Some (UnknownAlgorithm 39321)
   \<and> event_logs (fst (parse (init (Some unknown_algorithm_log)))) = []
   \<and> count (fst (parse (init (Some unknown_algorithm_log)))) = 1"
  using unknown_algorithm_aborts_parse
    [of "init (Some unknown_algorithm_log)\<lparr>spec_id_header_event := Some (sha_registry 1), count := 1\<rparr>"
        "sha_registry 1" unknown_algorithm_log 65 2 69 1 73 2 77 1
        "[\<lparr>alg_id = 4, digest_data = [170]\<rparr>]" 15 39321 17]
  by (simp add: eval_defs unknown_algorithm_log_def sha_registry_def)

section \<open>Header records after the first\<close>

text \<open>
  Claim C6. A no-action record is dispatched to the header parser in every loop state,
  also one that already holds a header and a registry: both are overwritten by the ones
  just decoded, the record sequence is left alone, and the count grows by one. From
  then on every measurement record met in a state with that registry has its digests
  looked up in it, and keeps it.
\<close>

theorem later_header_replaces_registry:
  assumes "get_uint32 buf i = Inr (imr, i1)" and "imr \<noteq> 4294967295"
    and "get_uint32 buf i1 = Inr (EV_NO_ACTION, i2)"
    and "parse_header_fields (drop i buf) = Inr (h, i4)"
    and "parse_spec_id_event (drop i buf) i4 = Inr (ev, header_len)"
  shows "parse_loop buf i s =
           parse_loop buf (i + header_len)
             (s\<lparr>spec_id_header := Some h, spec_id_header_event := Some ev,
                count := count s + 1\<rparr>)
         \<and> (\<forall>t j imr' j1 ev_type j2.
               spec_id_header_event t = Some ev \<and> get_uint32 buf j = Inr (imr', j1)
               \<and> imr' \<noteq> 4294967295 \<and> get_uint32 buf j1 = Inr (ev_type, j2)
               \<and> ev_type \<noteq> EV_NO_ACTION \<longrightarrow>
               parse_loop buf j t =
                 (case parse_event_log_body (Some ev) (drop j buf) of
                    Inl e \<Rightarrow> (t, Some e)
                  | Inr (event_log, e_len) \<Rightarrow>
                      parse_loop buf (j + e_len)
                        (t\<lparr>event_logs := event_logs t @ [event_log], count := count t + 1\<rparr>)))"
proof
  have "parse_header (drop i buf) s =
          (s\<lparr>spec_id_header := Some h, spec_id_header_event := Some ev\<rparr>, Inr header_len)"
    using assms(4,5) by (simp add: parse_header_def)
  then show "parse_loop buf i s =
           parse_loop buf (i + header_len)
             (s\<lparr>spec_id_header := Some h, spec_id_header_event := Some ev,
                count := count s + 1\<rparr>)"
    by (simp add: parse_loop_header_step [OF assms(1-3)])
next
  show "\<forall>t j imr' j1 ev_type j2.
               spec_id_header_event t = Some ev \<and> get_uint32 buf j = Inr (imr', j1)
               \<and> imr' \<noteq> 4294967295 \<and> get_uint32 buf j1 = Inr (ev_type, j2)
               \<and> ev_type \<noteq> EV_NO_ACTION \<longrightarrow>
               parse_loop buf j t =
                 (case parse_event_log_body (Some ev) (drop j buf) of
                    Inl e \<Rightarrow> (t, Some e)
                  | Inr (event_log, e_len) \<Rightarrow>
                      parse_loop buf (j + e_len)
                        (t\<lparr>event_logs := event_logs t @ [event_log], count := count t + 1\<rparr>))"
  proof (intro allI impI, elim conjE)
    fix t :: TcgEventLog and j imr' j1 ev_type j2
    assume reg: "spec_id_header_event t = Some ev"
      and rd: "get_uint32 buf j = Inr (imr', j1)" "imr' \<noteq> 4294967295"
        "get_uint32 buf j1 = Inr (ev_type, j2)" "ev_type \<noteq> EV_NO_ACTION"
    show "parse_loop buf j t =
                 (case parse_event_log_body (Some ev) (drop j buf) of
                    Inl e \<Rightarrow> (t, Some e)
                  | Inr (event_log, e_len) \<Rightarrow>
                      parse_loop buf (j + e_len)
                        (t\<lparr>event_logs := event_logs t @ [event_log], count := count t + 1\<rparr>))"
      using parse_loop_body_step [OF rd, of t] reg by simp
  qed
qed

theorem later_header_replaces_registry_witness:
  "parse_loop two_header_log 84
     (init (Some two_header_log)
        \<lparr>spec_id_header_event := Some (sha_registry 1),
         event_logs := [\<lparr>imr_index = 0, event_type = 1,
                         digests = [\<lparr>alg_id = 4, digest_data = [170]\<rparr>],
                         event_size = 0, event = []\<rparr>],
         count := 2\<rparr>)
   = (init (Some two_header_log)
        \<lparr>spec_id_header :=
           Some \<lparr>header_imr = 0, header_event_type = 3, header_digest = [0, 0, 0, 0, 0, 0, 0, 0, 0, 0, 0, 0, 0, 0, 0, 0, 0, 0, 0, 0],
                 header_event_size = 33, header_event = take 33 (drop 116 two_header_log)\<rparr>,
         spec_id_header_event := Some (sha_registry 2),
         event_logs := [\<lparr>imr_index = 0, event_type = 1,
                         digests = [\<lparr>alg_id = 4, digest_data = [170]\<rparr>],
                         event_size = 0, event = []\<rparr>,
                        \<lparr>imr_index = 0, event_type = 1,
                         digests = [\<lparr>alg_id = 4, digest_data = [187, 204]\<rparr>],
                         event_size = 0, event = []\<rparr>],
         count := 4\<rparr>, None)"
proof -
  let ?h = "\<lparr>header_imr = 0, header_event_type = 3,
             header_digest = [0, 0, 0, 0, 0, 0, 0, 0, 0, 0, 0, 0, 0, 0, 0, 0, 0, 0, 0, 0],
             header_event_size = 33, header_event = take 33 (drop 116 two_header_log)\<rparr>"
  let ?s = "init (Some two_header_log)
        \<lparr>spec_id_header_event := Some (sha_registry 1),
         event_logs := [\<lparr>imr_index = 0, event_type = 1,
                         digests = [\<lparr>alg_id = 4, digest_data = [170]\<rparr>],
                         event_size = 0, event = []\<rparr>],
         count := 2\<rparr>"
  have r0: "get_uint32 two_header_log 84 = Inr (1, 88)"
    and r1: "get_uint32 two_header_log 88 = Inr (EV_NO_ACTION, 92)"
    by (simp_all add: get_uint32_def two_header_log_def EV_NO_ACTION_def)
  have hf: "parse_header_fields (drop 84 two_header_log) = Inr (?h, 32)"
    by (simp add: parse_header_fields_def get_uint32_def get_bytes_def two_header_log_def)
  have ev: "parse_spec_id_event (drop 84 two_header_log) 32 = Inr (sha_registry 2, 65)"
    by (simp add: parse_spec_id_event_def get_uint32_def get_uint16_def get_uint8_def
        get_bytes_def two_header_log_def sha_registry_def)
  have "parse_loop two_header_log 84 ?s =
          parse_loop two_header_log (84 + 65)
            (?s\<lparr>spec_id_header := Some ?h, spec_id_header_event := Some (sha_registry 2),
                count := count ?s + 1\<rparr>)"
    using later_header_replaces_registry [OF r0 _ r1 hf ev, of ?s] by simp
  then show ?thesis
    by (simp add: eval_defs two_header_log_def sha_registry_def)
qed

section \<open>Offset returned by the header parser\<close>

text \<open>
  Claim C1, as amended. Where a no-action record at offset \<open>i\<close> decodes, the declared
  event size fits the bytes available, and the header parser returns the offset after
  the last field it decoded: 8 fixed header bytes, the 20-byte digest, the 4 size bytes
  and the 29 + 4 * (number of algorithms) + (vendor size) bytes of the specification-id
  structure. That is 8 + 20 + 4 + event_size exactly when the declared event size is the
  length of that structure. The loop goes on at \<open>i\<close> plus the returned offset. The claim
  as written fails for a record whose event size is larger than the structure in it.
\<close>

theorem header_parser_returns_end_of_decoded_fields:
  assumes "get_uint32 buf i = Inr (imr, i1)" and "imr \<noteq> 4294967295"
    and "get_uint32 buf i1 = Inr (EV_NO_ACTION, i2)"
    and "parse_header (drop i buf) s = (s1, Inr header_len)"
  shows "\<exists>h ev. spec_id_header s1 = Some h \<and> spec_id_header_event s1 = Some ev
           \<and> 8 + 20 + 4 + header_event_size h \<le> length (drop i buf)
           \<and> header_len = 8 + 20 + 4 + (29 + 4 * spec_id_num_of_algo ev + spec_id_vendor_size ev)
           \<and> (header_len = 8 + 20 + 4 + header_event_size h \<longleftrightarrow>
                header_event_size h = 29 + 4 * spec_id_num_of_algo ev + spec_id_vendor_size ev)
           \<and> parse_loop buf i s = parse_loop buf (i + header_len) (s1\<lparr>count := count s1 + 1\<rparr>)"
proof -
  from assms(4) obtain h i4 ev where
    hf: "parse_header_fields (drop i buf) = Inr (h, i4)"
    and se: "parse_spec_id_event (drop i buf) i4 = Inr (ev, header_len)"
    and s1: "s1 = s\<lparr>spec_id_header := Some h, spec_id_header_event := Some ev\<rparr>"
    unfolding parse_header_Inr_iff by blast
  from parse_header_fields_Inr [OF hf]
  have i4: "i4 = 32" and sz: "32 + header_event_size h \<le> length (drop i buf)" by simp_all
  from parse_spec_id_event_Inr [OF se] i4
  have len: "header_len = 32 + 29 + 4 * spec_id_num_of_algo ev + spec_id_vendor_size ev"
    by simp
  have step: "parse_loop buf i s = parse_loop buf (i + header_len) (s1\<lparr>count := count s1 + 1\<rparr>)"
    using assms(4) by (simp add: parse_loop_header_step [OF assms(1-3)])
  show ?thesis
  proof (intro exI conjI)
    show "spec_id_header s1 = Some h" by (simp add: s1)
    show "spec_id_header_event s1 = Some ev" by (simp add: s1)
    show "8 + 20 + 4 + header_event_size h \<le> length (drop i buf)" using sz by simp
    show "header_len = 8 + 20 + 4 + (29 + 4 * spec_id_num_of_algo ev + spec_id_vendor_size ev)"
      using len by simp
    show "header_len = 8 + 20 + 4 + header_event_size h \<longleftrightarrow>
            header_event_size h = 29 + 4 * spec_id_num_of_algo ev + spec_id_vendor_size ev"
      using len by auto
    show "parse_loop buf i s = parse_loop buf (i + header_len) (s1\<lparr>count := count s1 + 1\<rparr>)"
      by (rule step)
  qed
qed

theorem header_parser_returns_end_of_decoded_fields_witness:
  "snd (parse_header exact_header_log (init (Some exact_header_log))) = Inr 72
   \<and> map_option header_event_size
       (spec_id_header (fst (parse_header exact_header_log (init (Some exact_header_log)))))
       = Some 40
   \<and> parse_loop exact_header_log 0 (init (Some exact_header_log))
       = (fst (parse_header exact_header_log (init (Some exact_header_log)))\<lparr>count := 1\<rparr>, None)"
proof -
  have r0: "get_uint32 exact_header_log 0 = Inr (1, 4)"
    and r1: "get_uint32 exact_header_log 4 = Inr (EV_NO_ACTION, 8)"
    by (simp_all add: get_uint32_def exact_header_log_def EV_NO_ACTION_def)
  have ph: "parse_header (drop 0 exact_header_log) (init (Some exact_header_log))
              = (fst (parse_header exact_header_log (init (Some exact_header_log))), Inr 72)"
    by (simp add: eval_defs exact_header_log_def)
  from header_parser_returns_end_of_decoded_fields [OF r0 _ r1 ph]
  have "parse_loop exact_header_log 0 (init (Some exact_header_log)) =
          parse_loop exact_header_log (0 + 72)
            (fst (parse_header exact_header_log (init (Some exact_header_log)))
               \<lparr>count := count (fst (parse_header exact_header_log (init (Some exact_header_log)))) + 1\<rparr>)"
    by auto
  then show ?thesis
    by (simp add: eval_defs exact_header_log_def)
qed

text \<open>The counterexample to C1 as written: the event size is 40 and 40 bytes are
  there, but the structure has no algorithm and no vendor information and ends after
  29 of them; the parser returns 61, not 72.\<close>

theorem header_offset_short_of_event_size_counterexample:
  "snd (parse_header padded_header_log (init (Some padded_header_log))) = Inr 61
   \<and> map_option header_event_size
       (spec_id_header (fst (parse_header padded_header_log (init (Some padded_header_log)))))
       = Some 40
   \<and> 8 + 20 + 4 + 40 = length padded_header_log"
  by (simp add: eval_defs padded_header_log_def)

section \<open>Absent and empty buffers\<close>

text \<open>
  Claim C4. For an absent buffer the claim asks for a parse that raises nothing and
  yields a count of 0 and no records. The code logs the error and then evaluates
  \<^verbatim>\<open>len(self._data)\<close>, which raises.
\<close>

theorem parse_of_absent_buffer_raises:
  "parse (init None) = (init None\<lparr>logged := [''Providing invalid data blob.'']\<rparr>, Some TypeError)"
  by (simp add: parse_def init_def)

text \<open>The empty buffer parses to nothing, without error and without a log message.\<close>

lemma parse_of_empty_buffer:
  "parse (init (Some [])) = (init (Some []), None)"
  by (simp add: parse_def parse_loop.simps init_def)

section \<open>End to end\<close>

text \<open>
  Claim C8. The buffer \<open>end_to_end_log\<close> is the one of the claim: one no-action record
  declaring the single algorithm 0x0004 of digest size 32 with no vendor information,
  one measurement record with raw register field 1, one digest tagged 0x0004 of 32
  bytes, event size 4 and 4 payload bytes, and the sentinel 0xFFFFFFFF, 123 bytes in
  all. The claim asks that its parse yields the registry [(0x0004, 32)], a count of 2 and
  the one record. The loop decodes both records, so the object holds exactly that
  registry, that count and that record; but at the sentinel it reads the event type
  before it tests the register index, the buffer ends there, and the parse leaves with
  OutOfBounds instead of returning.
\<close>

theorem end_to_end_log_parse_raises_at_sentinel:
  "length end_to_end_log = 65 + 54 + 4
   \<and> get_uint32 end_to_end_log 119 = Inr (4294967295, 123)
   \<and> snd (parse (init (Some end_to_end_log))) = Some OutOfBounds
   \<and> map_option digest_sizes (spec_id_header_event (fst (parse (init (Some end_to_end_log)))))
       = Some [\<lparr>algo_id = 4, digest_size = 32\<rparr>]
   \<and> count (fst (parse (init (Some end_to_end_log)))) = 2
   \<and> event_logs (fst (parse (init (Some end_to_end_log))))
       = [\<lparr>imr_index = 0, event_type = 1,
           digests = [\<lparr>alg_id = 4,
                       digest_data = [1, 2, 3, 4, 5, 6, 7, 8, 9, 10, 11, 12, 13, 14, 15, 16, 17,
                                      18, 19, 20, 21, 22, 23, 24, 25, 26, 27, 28, 29, 30, 31, 32]\<rparr>],
           event_size = 4, event = [222, 173, 190, 239]\<rparr>]"
  by (simp add: eval_defs end_to_end_log_def)

section \<open>The loop on objects that already hold records\<close>

lemma with_prior_fields [simp]:
  "data (with_prior d L c lg t) = d"
  "event_logs (with_prior d L c lg t) = L @ event_logs t"
  "count (with_prior d L c lg t) = c + count t"
  "logged (with_prior d L c lg t) = lg"
  "spec_id_header (with_prior d L c lg t) = spec_id_header t"
  "spec_id_header_event (with_prior d L c lg t) = spec_id_header_event t"
  by (simp_all add: with_prior_def)

lemma with_prior_count:
  "with_prior d L c lg t\<lparr>count := c + count t + 1\<rparr> = with_prior d L c lg (t\<lparr>count := count t + 1\<rparr>)"
  by (cases t) (simp add: with_prior_def)

lemma with_prior_append:
  "with_prior d L c lg t\<lparr>event_logs := L @ event_logs t @ [e], count := c + count t + 1\<rparr>
     = with_prior d L c lg (t\<lparr>event_logs := event_logs t @ [e], count := count t + 1\<rparr>)"
  by (cases t) (simp add: with_prior_def)

lemma with_prior_headers:
  "with_prior d L c lg t\<lparr>spec_id_header := h\<rparr> = with_prior d L c lg (t\<lparr>spec_id_header := h\<rparr>)"
  "with_prior d L c lg t\<lparr>spec_id_header := h, spec_id_header_event := ev\<rparr>
     = with_prior d L c lg (t\<lparr>spec_id_header := h, spec_id_header_event := ev\<rparr>)"
  by (cases t, simp add: with_prior_def)+

lemma parse_header_frame:
  "parse_header blob (with_prior d L c lg s) =
     (case parse_header blob s of (s1, r) \<Rightarrow> (with_prior d L c lg s1, r))"
  by (simp add: parse_header_def with_prior_headers split: sum.splits prod.splits)

lemma parse_loop_stop:
  "\<not> i < length buf \<Longrightarrow> parse_loop buf i s = (s, None)"
  by (subst parse_loop.simps) simp

lemma parse_loop_read_fails:
  "i < length buf \<Longrightarrow> get_uint32 buf i = Inl e \<Longrightarrow> parse_loop buf i s = (s, Some e)"
  by (subst parse_loop.simps) simp

lemma parse_loop_cases:
  obtains
    (stop) "\<not> i < length buf"
  | (short) "i < length buf" "length buf < i + 8"
  | (sentinel) i1 where "get_uint32 buf i = Inr (4294967295, i1)" "i + 8 \<le> length buf"
  | (header) imr i1 i2 where "get_uint32 buf i = Inr (imr, i1)" "imr \<noteq> 4294967295"
      "get_uint32 buf i1 = Inr (EV_NO_ACTION, i2)"
  | (body) imr i1 ev_type i2 where "get_uint32 buf i = Inr (imr, i1)" "imr \<noteq> 4294967295"
      "get_uint32 buf i1 = Inr (ev_type, i2)" "ev_type \<noteq> EV_NO_ACTION"
proof (cases "i < length buf")
  case False
  then show ?thesis by (rule stop)
next
  case True
  show ?thesis
  proof (cases "length buf < i + 8")
    case True
    with \<open>i < length buf\<close> show ?thesis by (rule short)
  next
    case False
    then obtain imr ev_type where
      r0: "get_uint32 buf i = Inr (imr, i + 4)" and r1: "get_uint32 buf (i + 4) = Inr (ev_type, i + 4 + 4)"
      using get_uint32_in_bounds [of i buf] get_uint32_in_bounds [of "i + 4" buf] by auto
    show ?thesis
    proof (cases "imr = 4294967295")
      case True
      with r0 False show ?thesis by (intro sentinel) auto
    next
      case False
      with r0 r1 show ?thesis
        by (cases "ev_type = EV_NO_ACTION") (auto intro: header body)
    qed
  qed
qed

lemma parse_loop_short:
  assumes "i < length buf" and "length buf < i + 8"
  shows "parse_loop buf i s = (s, Some OutOfBounds)"
proof (cases "i + 4 \<le> length buf")
  case True
  then obtain v where "get_uint32 buf i = Inr (v, i + 4)"
    using get_uint32_in_bounds by blast
  then show ?thesis using assms(2) by (rule parse_loop_truncated_prefix)
next
  case False
  then have "get_uint32 buf i = Inl OutOfBounds" by (simp add: get_uint32_def)
  with assms(1) show ?thesis by (rule parse_loop_read_fails)
qed

lemma parse_loop_frame:
  "parse_loop buf i (with_prior d L c lg s) =
     (case parse_loop buf i s of (t, r) \<Rightarrow> (with_prior d L c lg t, r))"
proof (induction "length buf - i" arbitrary: i s rule: less_induct)
  case less
  show ?case
  proof (cases rule: parse_loop_cases [of i buf])
    case stop
    then show ?thesis by (simp add: parse_loop_stop)
  next
    case short
    then show ?thesis by (simp add: parse_loop_short)
  next
    case (sentinel i1)
    then show ?thesis by (simp add: parse_loop_sentinel)
  next
    case (header imr i1 i2)
    from get_uint32_Inr [OF header(1)] have lt: "i < length buf" by simp
    show ?thesis
    proof (cases "parse_header (drop i buf) s")
      case (Pair s1 r)
      show ?thesis
      proof (cases r)
        case (Inl e)
        with Pair show ?thesis
          by (simp add: parse_loop_header_step [OF header] parse_header_frame)
      next
        case (Inr hl)
        with Pair have "61 \<le> hl" using parse_header_Inr by blast
        with lt have "length buf - (i + hl) < length buf - i" by simp
        from less [OF this, of "s1\<lparr>count := count s1 + 1\<rparr>"] Pair Inr show ?thesis
          by (simp add: parse_loop_header_step [OF header] parse_header_frame
              with_prior_count add.assoc [symmetric])
      qed
    qed
  next
    case (body imr i1 ev_type i2)
    from get_uint32_Inr [OF body(1)] have lt: "i < length buf" by simp
    show ?thesis
    proof (cases "parse_event_log_body (spec_id_header_event s) (drop i buf)")
      case (Inl e)
      then show ?thesis by (simp add: parse_loop_body_step [OF body])
    next
      case (Inr r)
      obtain entry el where r: "r = (entry, el)" by (cases r)
      with Inr have "16 \<le> el" using parse_event_log_body_Inr by blast
      with lt have "length buf - (i + el) < length buf - i" by simp
      from less [OF this, of "s\<lparr>event_logs := event_logs s @ [entry], count := count s + 1\<rparr>"]
        Inr r show ?thesis
        by (simp add: parse_loop_body_step [OF body] with_prior_append add.assoc [symmetric])
    qed
  qed
qed

lemma parse_digests_without_registry:
  "parse_digests None blob i n acc = Inr r \<Longrightarrow> parse_digests reg blob i n acc = Inr r"
  by (cases n) (auto simp: bind_eq_Inr)

lemma parse_event_log_body_without_registry:
  "parse_event_log_body None blob = Inr r \<Longrightarrow> parse_event_log_body reg blob = Inr r"
  unfolding parse_event_log_body_def
  by (auto simp: bind_eq_Inr dest: parse_digests_without_registry [where reg = reg])

lemma parse_header_overwrites:
  "parse_header blob s = (s1, Inr hl) \<Longrightarrow>
     parse_header blob (s\<lparr>spec_id_header := h, spec_id_header_event := ev\<rparr>) = (s1, Inr hl)"
  by (auto simp: parse_header_def split: sum.splits)

lemma parse_loop_registry_irrelevant:
  assumes "parse_loop buf i s = (t, None)" and "spec_id_header_event s = None"
  shows "parse_loop buf i
           (s\<lparr>spec_id_header := spec_id_header t, spec_id_header_event := spec_id_header_event t\<rparr>)
         = (t, None)"
  using assms
proof (induction "length buf - i" arbitrary: i s rule: less_induct)
  case less
  let ?s' = "s\<lparr>spec_id_header := spec_id_header t, spec_id_header_event := spec_id_header_event t\<rparr>"
  show ?case
  proof (cases rule: parse_loop_cases [of i buf])
    case stop
    with less.prems(1) have "t = s" by (simp add: parse_loop_stop)
    with stop show ?thesis by (simp add: parse_loop_stop)
  next
    case short
    with less.prems(1) show ?thesis by (simp add: parse_loop_short)
  next
    case (sentinel i1)
    with less.prems(1) have "t = s" by (simp add: parse_loop_sentinel)
    with sentinel show ?thesis by (simp add: parse_loop_sentinel)
  next
    case (header imr i1 i2)
    obtain s1 r where ph: "parse_header (drop i buf) s = (s1, r)"
      by (cases "parse_header (drop i buf) s")
    with less.prems(1) obtain hl where r: "r = Inr hl"
      by (cases r) (simp_all add: parse_loop_header_step [OF header])
    from ph r have "parse_header (drop i buf) ?s' = (s1, Inr hl)"
      by (simp add: parse_header_overwrites)
    with less.prems(1) ph r show ?thesis
      by (simp add: parse_loop_header_step [OF header])
  next
    case (body imr i1 ev_type i2)
    from get_uint32_Inr [OF body(1)] have lt: "i < length buf" by simp
    from less.prems obtain entry el where
      pb: "parse_event_log_body None (drop i buf) = Inr (entry, el)"
      by (cases "parse_event_log_body None (drop i buf)")
        (auto simp: parse_loop_body_step [OF body])
    let ?s2 = "s\<lparr>event_logs := event_logs s @ [entry], count := count s + 1\<rparr>"
    from pb less.prems have run: "parse_loop buf (i + el) ?s2 = (t, None)"
      by (simp add: parse_loop_body_step [OF body])
    from pb have "16 \<le> el" using parse_event_log_body_Inr by blast
    with lt have "length buf - (i + el) < length buf - i" by simp
    from less.hyps [OF this run] less.prems(2)
    have "parse_loop buf (i + el)
            (?s2\<lparr>spec_id_header := spec_id_header t,
                 spec_id_header_event := spec_id_header_event t\<rparr>) = (t, None)"
      by simp
    moreover have "parse_event_log_body (spec_id_header_event t) (drop i buf) = Inr (entry, el)"
      using pb by (rule parse_event_log_body_without_registry)
    moreover have "?s2\<lparr>spec_id_header := spec_id_header t,
                 spec_id_header_event := spec_id_header_event t\<rparr>
         = ?s'\<lparr>event_logs := event_logs ?s' @ [entry], count := count ?s' + 1\<rparr>"
      by (cases s) simp
    ultimately show ?thesis
      by (simp add: parse_loop_body_step [OF body])
  qed
qed

lemma get_uint8_Inl: "get_uint8 blob i = Inl e \<Longrightarrow> e = OutOfBounds"
  by (auto simp: get_uint8_def split: if_splits)

lemma get_uint16_Inl: "get_uint16 blob i = Inl e \<Longrightarrow> e = OutOfBounds"
  by (auto simp: get_uint16_def split: if_splits)

lemma get_uint32_Inl: "get_uint32 blob i = Inl e \<Longrightarrow> e = OutOfBounds"
  by (auto simp: get_uint32_def split: if_splits)

lemma get_bytes_Inl: "get_bytes blob i n = Inl e \<Longrightarrow> e = OutOfBounds"
  by (auto simp: get_bytes_def split: if_splits)

lemmas reader_Inl = get_uint8_Inl get_uint16_Inl get_uint32_Inl get_bytes_Inl

lemma parse_digest_sizes_Inl:
  "parse_digest_sizes blob i n acc = Inl e \<Longrightarrow> e = OutOfBounds"
  by (induction n arbitrary: i acc) (auto simp: bind_eq_Inl dest: reader_Inl)

lemma parse_header_fields_Inl: "parse_header_fields blob = Inl e \<Longrightarrow> e = OutOfBounds"
  unfolding parse_header_fields_def
  by (auto simp: bind_eq_Inl dest: reader_Inl)

lemma parse_spec_id_event_Inl: "parse_spec_id_event blob i = Inl e \<Longrightarrow> e = OutOfBounds"
  unfolding parse_spec_id_event_def
  by (auto simp: bind_eq_Inl split: if_splits dest: reader_Inl parse_digest_sizes_Inl)

lemma parse_header_Inl: "parse_header blob s = (s1, Inl e) \<Longrightarrow> e = OutOfBounds"
  by (auto simp: parse_header_def split: sum.splits
      dest: parse_header_fields_Inl parse_spec_id_event_Inl)

lemma parse_digests_Inl:
  "parse_digests reg blob i n acc = Inl e \<Longrightarrow> e \<noteq> InvalidRange m"
proof (induction n arbitrary: i acc)
  case 0
  then show ?case by simp
next
  case (Suc n)
  from Suc.prems show ?case
    apply (simp add: bind_eq_Inl)
    apply (elim disjE exE conjE)
        apply (drule get_uint16_Inl, simp)
       apply (auto split: option.splits)[1]
      apply (auto split: option.splits)[1]
     apply (drule get_bytes_Inl, simp)
    apply (erule Suc.IH)
    done
qed

lemma parse_event_log_body_Inl:
  "parse_event_log_body reg blob = Inl e \<Longrightarrow> e \<noteq> InvalidRange m"
  unfolding parse_event_log_body_def
  by (auto simp: bind_eq_Inl dest: reader_Inl parse_digests_Inl)

lemma parse_loop_error:
  "parse_loop buf i s = (t, Some e) \<Longrightarrow> e \<noteq> InvalidRange m"
proof (induction "length buf - i" arbitrary: i s rule: less_induct)
  case less
  show ?case
  proof (cases rule: parse_loop_cases [of i buf])
    case stop
    with less.prems show ?thesis by (simp add: parse_loop_stop)
  next
    case short
    with less.prems show ?thesis by (auto simp: parse_loop_short)
  next
    case (sentinel i1)
    with less.prems show ?thesis by (simp add: parse_loop_sentinel)
  next
    case (header imr i1 i2)
    from get_uint32_Inr [OF header(1)] have lt: "i < length buf" by simp
    obtain s1 r where ph: "parse_header (drop i buf) s = (s1, r)"
      by (cases "parse_header (drop i buf) s")
    show ?thesis
    proof (cases r)
      case (Inl e')
      with ph less.prems have "e = e'" by (simp add: parse_loop_header_step [OF header])
      with ph Inl show ?thesis by (auto dest: parse_header_Inl)
    next
      case (Inr hl)
      with ph have "61 \<le> hl" using parse_header_Inr by blast
      with lt have "length buf - (i + hl) < length buf - i" by simp
      moreover from ph Inr less.prems
      have "parse_loop buf (i + hl) (s1\<lparr>count := count s1 + 1\<rparr>) = (t, Some e)"
        by (simp add: parse_loop_header_step [OF header])
      ultimately show ?thesis by (rule less.hyps)
    qed
  next
    case (body imr i1 ev_type i2)
    from get_uint32_Inr [OF body(1)] have lt: "i < length buf" by simp
    show ?thesis
    proof (cases "parse_event_log_body (spec_id_header_event s) (drop i buf)")
      case (Inl e')
      with less.prems have "e = e'" by (simp add: parse_loop_body_step [OF body])
      with Inl show ?thesis by (auto dest: parse_event_log_body_Inl)
    next
      case (Inr r)
      obtain entry el where r: "r = (entry, el)" by (cases r)
      with Inr have "16 \<le> el" using parse_event_log_body_Inr by blast
      with lt have "length buf - (i + el) < length buf - i" by simp
      moreover from Inr r less.prems
      have "parse_loop buf (i + el)
              (s\<lparr>event_logs := event_logs s @ [entry], count := count s + 1\<rparr>) = (t, Some e)"
        by (simp add: parse_loop_body_step [OF body])
      ultimately show ?thesis by (rule less.hyps)
    qed
  qed
qed

lemma parse_error: "parse s = (t, Some e) \<Longrightarrow> e \<noteq> InvalidRange m"
  by (auto simp: parse_def split: option.splits dest: parse_loop_error)

lemma with_prior_self: "with_prior (data s) [] 0 (logged s) s = s"
  by (cases s) (simp add: with_prior_def)

lemma parse_loop_keeps:
  assumes "parse_loop buf i s = (t, r)"
  shows "data t = data s" and "logged t = logged s"
proof -
  from parse_loop_frame [of buf i "data s" "[]" 0 "logged s" s] assms
  have "t = with_prior (data s) [] 0 (logged s) t"
    by (simp add: with_prior_self)
  then have "data t = data (with_prior (data s) [] 0 (logged s) t)"
    and "logged t = logged (with_prior (data s) [] 0 (logged s) t)" by simp_all
  then show "data t = data s" and "logged t = logged s" by simp_all
qed

lemma parse_loop_extends:
  assumes "parse_loop buf i s = (t, r)"
  shows "\<exists>new. event_logs t = event_logs s @ new"
proof -
  have s: "s = with_prior (data s) (event_logs s) (count s) (logged s)
                 (s\<lparr>event_logs := [], count := 0\<rparr>)"
    by (cases s) (simp add: with_prior_def)
  obtain t0 r0 where t0: "parse_loop buf i (s\<lparr>event_logs := [], count := 0\<rparr>) = (t0, r0)"
    by (cases "parse_loop buf i (s\<lparr>event_logs := [], count := 0\<rparr>)")
  from parse_loop_frame [of buf i "data s" "event_logs s" "count s" "logged s"
      "s\<lparr>event_logs := [], count := 0\<rparr>"] t0 assms s
  have "t = with_prior (data s) (event_logs s) (count s) (logged s) t0" by simp
  then have "event_logs t = event_logs s @ event_logs t0"
    by (metis with_prior_fields(2))
  then show ?thesis ..
qed

lemma parse_loop_again:
  assumes "parse_loop buf 0 (init (Some buf)) = (p, None)"
    and "spec_id_header q = spec_id_header p"
    and "spec_id_header_event q = spec_id_header_event p"
  shows "parse_loop buf 0 q =
           (q\<lparr>event_logs := event_logs q @ event_logs p, count := count q + count p\<rparr>, None)"
proof -
  let ?s0 = "init (Some buf)\<lparr>spec_id_header := spec_id_header p,
                              spec_id_header_event := spec_id_header_event p\<rparr>"
  have "spec_id_header_event (init (Some buf)) = None" by (simp add: init_def)
  with assms(1) have run: "parse_loop buf 0 ?s0 = (p, None)"
    by (rule parse_loop_registry_irrelevant)
  have q: "q = with_prior (data q) (event_logs q) (count q) (logged q) ?s0"
    using assms(2,3) by (cases q) (simp add: with_prior_def init_def)
  have "parse_loop buf 0 (with_prior (data q) (event_logs q) (count q) (logged q) ?s0)
          = (with_prior (data q) (event_logs q) (count q) (logged q) p, None)"
    by (simp add: parse_loop_frame run)
  moreover have "with_prior (data q) (event_logs q) (count q) (logged q) p
          = q\<lparr>event_logs := event_logs q @ event_logs p, count := count q + count p\<rparr>"
    using assms(2,3) by (cases q, cases p) (simp add: with_prior_def)
  ultimately show ?thesis using q by simp
qed

lemma select_success:
  assumes "select start cnt s = (q, None)"
  shows "\<exists>p. parse s = (p, None) \<and> data q = data p
           \<and> spec_id_header q = spec_id_header p
           \<and> spec_id_header_event q = spec_id_header_event p \<and> count q = count p
           \<and> (start = None \<and> cnt = None \<longrightarrow> q = p)"
  using assms
  by (auto simp: select_def split: prod.splits option.splits if_splits)

section \<open>Selector and repeated parsing\<close>

text \<open>
  Claim C9. \<^verbatim>\<open>select\<close> runs the parse pass first, whatever the object holds. After a
  first \<open>select\<close> on a fresh object has succeeded, leaving the object \<open>q\<close> with the count
  of the full parse \<open>p\<close>, the parse pass of the next \<open>select\<close> appends all records of \<open>p\<close>
  to the stored ones again and adds the count of \<open>p\<close> again; with no window in either
  call (\<open>q = p\<close>) the records and the count are exactly doubled.
\<close>

theorem select_parses_again:
  assumes "select start cnt (init (Some buf)) = (q, None)"
  shows "\<exists>p. parse (init (Some buf)) = (p, None) \<and> count q = count p
           \<and> (start = None \<and> cnt = None \<longrightarrow> q = p)
           \<and> parse q = (q\<lparr>event_logs := event_logs q @ event_logs p, count := 2 * count p\<rparr>, None)
           \<and> select None None q
                = (q\<lparr>event_logs := event_logs q @ event_logs p, count := 2 * count p\<rparr>, None)"
proof -
  from select_success [OF assms] obtain p where
    p: "parse (init (Some buf)) = (p, None)" and dt: "data q = data p"
    and hd: "spec_id_header q = spec_id_header p"
      "spec_id_header_event q = spec_id_header_event p"
    and q: "count q = count p"
    and same: "start = None \<and> cnt = None \<longrightarrow> q = p"
    by blast
  from p have run: "parse_loop buf 0 (init (Some buf)) = (p, None)"
    by (simp add: parse_def init_def)
  from parse_loop_keeps(1) [OF run] have "data p = Some buf" by (simp add: init_def)
  with dt have dq: "data q = Some buf" by simp
  from parse_loop_again [OF run hd] dq q
  have again: "parse q = (q\<lparr>event_logs := event_logs q @ event_logs p, count := 2 * count p\<rparr>, None)"
    by (simp add: parse_def)
  then have "select None None q
                = (q\<lparr>event_logs := event_logs q @ event_logs p, count := 2 * count p\<rparr>, None)"
    by (simp add: select_def)
  with p q same again show ?thesis by simp
qed

theorem select_parses_again_witness:
  "count (fst (select None None (init (Some two_record_log)))) = 2
   \<and> select None None (fst (select None None (init (Some two_record_log))))
       = (init (Some two_record_log)
            \<lparr>event_logs :=
               [\<lparr>imr_index = 0, event_type = 1, digests = [], event_size = 0, event = []\<rparr>,
                \<lparr>imr_index = 1, event_type = 1, digests = [], event_size = 0, event = []\<rparr>,
                \<lparr>imr_index = 0, event_type = 1, digests = [], event_size = 0, event = []\<rparr>,
                \<lparr>imr_index = 1, event_type = 1, digests = [], event_size = 0, event = []\<rparr>],
             count := 4\<rparr>, None)"
proof -
  have first: "select None None (init (Some two_record_log))
                 = (fst (select None None (init (Some two_record_log))), None)"
    by (simp add: select_def eval_defs two_record_log_def)
  from select_parses_again [OF first] show ?thesis
    by (simp add: select_def eval_defs two_record_log_def)
qed

text \<open>
  Claim C2, as amended. When \<open>select\<close> fails with InvalidRange, its parse pass has
  succeeded and has appended to the records the object held before the call; the stored
  records after the failed call are those of the object after that parse pass when
  \<open>start\<close> is unset or violates its bound, and those with the first \<open>start - 1\<close> dropped
  when \<open>start\<close> is valid and \<open>count\<close> violates its bound. The claim as written, that the
  records are those from before the call, fails on both accounts.
\<close>

theorem failed_select_keeps_reparsed_records:
  assumes "select start cnt s = (t, Some (InvalidRange m))"
  shows "\<exists>p new. parse s = (p, None) \<and> event_logs p = event_logs s @ new
           \<and> event_logs t =
               (case start of
                  None \<Rightarrow> event_logs p
                | Some st \<Rightarrow> if 0 < st \<and> st \<le> count p
                             then drop (nat (st - 1)) (event_logs p) else event_logs p)"
proof -
  obtain p r where p: "parse s = (p, r)" by (cases "parse s")
  have r: "r = None"
  proof (cases r)
    case None
    then show ?thesis .
  next
    case (Some e)
    with p assms have "e = InvalidRange m" by (simp add: select_def)
    with p Some show ?thesis using parse_error by blast
  qed
  from p r obtain buf where "data s = Some buf" and "parse_loop buf 0 s = (p, None)"
    by (cases "data s") (simp_all add: parse_def)
  then obtain new where new: "event_logs p = event_logs s @ new"
    using parse_loop_extends by blast
  from assms p r have "event_logs t =
               (case start of
                  None \<Rightarrow> event_logs p
                | Some st \<Rightarrow> if 0 < st \<and> st \<le> count p
                             then drop (nat (st - 1)) (event_logs p) else event_logs p)"
    by (auto simp: select_def split: option.splits if_splits)
  with p r new show ?thesis by blast
qed

theorem failed_select_keeps_reparsed_records_witness:
  "select (Some 2) (Some 9) (init (Some two_record_log))
     = (init (Some two_record_log)
          \<lparr>event_logs :=
             [\<lparr>imr_index = 1, event_type = 1, digests = [], event_size = 0, event = []\<rparr>],
           count := 2,
           logged := [''Invalid input count. count must be number larger than 0 '' @
                      replicate 22 CHR '' '' @ ''and smaller than total event log count.'']\<rparr>,
        Some (InvalidRange ''Invalid parameter count.''))"
proof -
  have failed: "select (Some 2) (Some 9) (init (Some two_record_log))
                 = (fst (select (Some 2) (Some 9) (init (Some two_record_log))),
                    Some (InvalidRange ''Invalid parameter count.''))"
    by (simp add: select_def eval_defs two_record_log_def)
  from failed_select_keeps_reparsed_records [OF failed] show ?thesis
    by (simp add: select_def eval_defs two_record_log_def)
qed

text \<open>The counterexample to C2 as written: on a parsed log of two records,
  \<open>select(4, 5)\<close> fails on \<open>count\<close> and leaves one record, and \<open>select(9, None)\<close> fails
  on \<open>start\<close> and leaves four.\<close>

theorem failed_select_changes_records_counterexample:
  "parse (init (Some two_record_log))
     = (init (Some two_record_log)
          \<lparr>event_logs :=
             [\<lparr>imr_index = 0, event_type = 1, digests = [], event_size = 0, event = []\<rparr>,
              \<lparr>imr_index = 1, event_type = 1, digests = [], event_size = 0, event = []\<rparr>],
           count := 2\<rparr>, None)
   \<and> snd (select (Some 4) (Some 5) (fst (parse (init (Some two_record_log)))))
       = Some (InvalidRange ''Invalid parameter count.'')
   \<and> event_logs (fst (select (Some 4) (Some 5) (fst (parse (init (Some two_record_log))))))
       = [\<lparr>imr_index = 1, event_type = 1, digests = [], event_size = 0, event = []\<rparr>]
   \<and> snd (select (Some 9) None (fst (parse (init (Some two_record_log)))))
       = Some (InvalidRange ''Invalid parameter start.'')
   \<and> length (event_logs (fst (select (Some 9) None (fst (parse (init (Some two_record_log)))))))
       = 4"
  by (simp add: select_def eval_defs two_record_log_def)

end
